theory Spec2Isabelle
  imports Main
begin

section \<open>Errors\<close>

text \<open>
  \<open>report.cc\<close> raises with \<open>throw_(std::logic_error, msg)\<close>. The substring constructor of
  \<open>std::string\<close> raises \<open>std::out_of_range\<close> when its start lies beyond the end of the
  string. A function that is only declared in a header (\<open>parse_datetime\<close>, the \<open>value_t\<close>
  constructor and conversions) may raise as well: such an exception leaves the caller
  unchanged and is carried as \<open>Callee_error\<close>.
\<close>

datatype error =
    Logic_error string
  | Out_of_range
  | Callee_error string

section \<open>The string operations used by the builder\<close>

text \<open>
  \<open>s.find(c, pos)\<close>: the least index \<open>i \<ge> pos\<close> with \<open>s[i] == c\<close>, and \<open>npos\<close>
  (here \<open>None\<close>) when there is none. Indices are \<open>size_type\<close>, modelled by \<open>nat\<close>.
\<close>

function find_from :: "string \<Rightarrow> char \<Rightarrow> nat \<Rightarrow> nat option" where
  "find_from s c pos =
     (if pos < length s
      then (if s ! pos = c then Some pos else find_from s c (pos + 1))
      else None)"
  by pat_completeness auto
termination
  by (relation "measure (\<lambda>(s, c, pos). length s - pos)") auto

text \<open>
  \<open>std::string(s, beg, n)\<close> and \<open>std::string(s, beg)\<close> (count \<open>npos\<close>, here \<open>None\<close>):
  the characters from \<open>beg\<close> on, at most \<open>n\<close> of them; \<open>std::out_of_range\<close> when
  \<open>beg > s.size()\<close>.
\<close>

definition substring :: "string \<Rightarrow> nat \<Rightarrow> nat option \<Rightarrow> error + string" where
  "substring s beg n =
     (if length s < beg then Inl Out_of_range
      else Inr (case n of None \<Rightarrow> drop beg s | Some k \<Rightarrow> take k (drop beg s)))"

lemma find_from_Some:
  "find_from s c pos = Some p \<Longrightarrow> pos \<le> p \<and> p < length s \<and> s ! p = c"
proof (induction s c pos rule: find_from.induct)
  case (1 s c pos)
  show ?case
  proof (cases "pos < length s \<and> s ! pos \<noteq> c")
    case True
    with "1.prems" have "find_from s c (pos + 1) = Some p" by simp
    with "1.IH" True have "pos + 1 \<le> p \<and> p < length s \<and> s ! p = c" by simp
    then show ?thesis by simp
  next
    case False
    with "1.prems" show ?thesis by (auto split: if_splits)
  qed
qed

text \<open>
  The loop of lines 70 to 75, with its three variables: \<open>beg\<close>, \<open>pos\<close> and the list
  \<open>descend_exprs\<close> that \<open>push_back\<close> extends at its end.
  \<^verbatim>\<open>
  for (pos = descend_expr.find(';'); pos != npos; beg = pos + 1, pos = descend_expr.find(';', beg))
    descend_exprs.push_back(std::string(descend_expr, beg, pos - beg));
  descend_exprs.push_back(std::string(descend_expr, beg));
  \<close>
\<close>

function descend_split :: "string \<Rightarrow> nat \<Rightarrow> nat option \<Rightarrow> string list \<Rightarrow> error + string list" where
  "descend_split s beg pos descend_exprs =
     (case pos of
        None \<Rightarrow>
          (case substring s beg None of
             Inl e \<Rightarrow> Inl e
           | Inr seg \<Rightarrow> Inr (descend_exprs @ [seg]))
      | Some p \<Rightarrow>
          (case substring s beg (Some (p - beg)) of
             Inl e \<Rightarrow> Inl e
           | Inr seg \<Rightarrow>
               descend_split s (p + 1) (find_from s CHR '';'' (p + 1)) (descend_exprs @ [seg])))"
  by pat_completeness auto
termination
proof (relation "measure (\<lambda>(s, beg, pos, acc). case pos of None \<Rightarrow> 0 | Some p \<Rightarrow> Suc (length s - p))")
  show "wf (measure (\<lambda>(s, beg, pos, acc). case pos of None \<Rightarrow> 0 | Some p \<Rightarrow> Suc (length s - p)))"
    by simp
next
  fix s :: string and beg :: nat and pos :: "nat option" and descend_exprs :: "string list"
    and p :: nat and seg :: string
  show "((s, p + 1, find_from s CHR '';'' (p + 1), descend_exprs @ [seg]), (s, beg, pos, descend_exprs))
        \<in> measure (\<lambda>(s, beg, pos, acc). case pos of None \<Rightarrow> 0 | Some p \<Rightarrow> Suc (length s - p))"
    if "pos = Some p"
  proof (cases "find_from s CHR '';'' (p + 1)")
    case None
    with that show ?thesis by simp
  next
    case (Some q)
    from find_from_Some [OF Some] have "p + 1 \<le> q" "q < length s" by simp_all
    with that Some show ?thesis by simp
  qed
qed

section \<open>Report options and handler chains\<close>

text \<open>
  The members of \<open>report_t\<close> that \<open>chain_xact_handlers\<close> reads. Their declarations
  are in \<open>report.h\<close>; the two counts are only tested for being nonzero and handed on.
\<close>

record report_t =
  head_entries :: int
  tail_entries :: int
  display_predicate :: string
  descend_expr :: string
  reconcile_balance :: string
  reconcile_date :: string
  secondary_predicate :: string
  sort_string :: string
  entry_sort :: bool
  show_revalued :: bool
  show_revalued_only :: bool
  show_collapsed :: bool
  show_subtotal :: bool
  days_of_the_week :: bool
  by_payee :: bool
  report_period :: string
  show_inverted :: bool
  show_related :: bool
  show_all_related :: bool
  predicate :: string
  comm_as_payee :: bool
  code_as_payee :: bool

text \<open>
  What the builder takes from outside the file: the global \<open>current_moment\<close>, the
  function \<open>parse_datetime\<close> and the constructor \<open>value_t(string)\<close>. The type \<open>'t\<close>
  stands for \<open>datetime_t\<close> and \<open>'v\<close> for \<open>value_t\<close>.
\<close>

record ('t, 'v) externals =
  current_moment :: 't
  parse_datetime :: "string \<Rightarrow> error + 't"
  value_t :: "string \<Rightarrow> error + 'v"

text \<open>
  One handler object, named by its class, with the constructor arguments that follow the
  wrapped handler. \<open>Other_handler\<close> is a handler the caller supplies (a formatter,
  \<open>set_account_value\<close>).
\<close>

datatype ('t, 'v, 'b) stage =
    Truncate_entries int int
  | Filter_xacts string
  | Calc_xacts
  | Component_xacts string
  | Reconcile_xacts 'v 't
  | Sort_entries string
  | Sort_xacts string
  | Changed_value_xacts bool
  | Collapse_xacts
  | Subtotal_xacts bool
  | Dow_xacts bool
  | By_payee_xacts bool
  | Interval_xacts string bool
  | Invert_xacts
  | Related_xacts bool
  | Set_comm_as_payee
  | Set_code_as_payee
  | Other_handler 'b

text \<open>
  Modelled from the spec: the handler classes and \<open>xact_handler_ptr\<close> are declared outside
  \<open>report.cc\<close>. A stage "forwards zero or more items to its sole successor", the chain is
  "a singly linked, strictly linear structure", the builder works "by prepending stages"
  and the walker pushes each item "into the head of a chain". So a handler pointer is the
  list of the stages an item meets, head first, and \<open>handler.reset(new X(handler, a))\<close>
  puts \<open>X a\<close> in front of the list: the first constructor argument is the successor.
\<close>

type_synonym ('t, 'v, 'b) xact_handler = "('t, 'v, 'b) stage list"

section \<open>The builder\<close>

text \<open>
  \<open>report_t::chain_xact_handlers\<close>, lines 37 to 210, statement by statement. The reverse
  iterator of lines 77 to 81 visits \<open>descend_exprs\<close> from its last element to its first.
\<close>

definition chain_xact_handlers ::
  "('t, 'v) externals \<Rightarrow> report_t \<Rightarrow> ('t, 'v, 'b) xact_handler \<Rightarrow> bool
     \<Rightarrow> error + ('t, 'v, 'b) xact_handler" where
  "chain_xact_handlers ext r base_handler handle_individual_xacts =
    (let remember_components = False;
         handler = base_handler
     in
     case
       (if handle_individual_xacts then
          (let handler =
                 (if head_entries r \<noteq> 0 \<or> tail_entries r \<noteq> 0
                  then Truncate_entries (head_entries r) (tail_entries r) # handler
                  else handler);
               handler =
                 (if display_predicate r \<noteq> []
                  then Filter_xacts (display_predicate r) # handler
                  else handler);
               handler = Calc_xacts # handler
           in
           case
             (if descend_expr r \<noteq> [] then
                (case descend_split (descend_expr r) 0
                        (find_from (descend_expr r) CHR '';'' 0) [] of
                   Inl e \<Rightarrow> Inl e
                 | Inr descend_exprs \<Rightarrow>
                     Inr (fold (\<lambda>i h. Component_xacts i # h) (rev descend_exprs) handler,
                          True))
              else Inr (handler, remember_components))
           of
             Inl e \<Rightarrow> Inl e
           | Inr (handler, remember_components) \<Rightarrow>
               (case
                  (if reconcile_balance r \<noteq> [] then
                     (case (if reconcile_date r \<noteq> []
                            then parse_datetime ext (reconcile_date r)
                            else Inr (current_moment ext)) of
                        Inl e \<Rightarrow> Inl e
                      | Inr cutoff \<Rightarrow>
                          (case value_t ext (reconcile_balance r) of
                             Inl e \<Rightarrow> Inl e
                           | Inr balance \<Rightarrow> Inr (Reconcile_xacts balance cutoff # handler)))
                   else Inr handler)
                of
                  Inl e \<Rightarrow> Inl e
                | Inr handler \<Rightarrow>
                    Inr (let handler =
                               (if secondary_predicate r \<noteq> []
                                then Filter_xacts (secondary_predicate r) # handler
                                else handler);
                             handler =
                               (if sort_string r \<noteq> []
                                then (if entry_sort r
                                      then Sort_entries (sort_string r) # handler
                                      else Sort_xacts (sort_string r) # handler)
                                else handler);
                             handler =
                               (if show_revalued r
                                then Changed_value_xacts (show_revalued_only r) # handler
                                else handler);
                             handler =
                               (if show_collapsed r then Collapse_xacts # handler else handler);
                             handler =
                               (if show_subtotal r
                                then Subtotal_xacts remember_components # handler
                                else handler);
                             handler =
                               (if days_of_the_week r
                                then Dow_xacts remember_components # handler
                                else if by_payee r
                                then By_payee_xacts remember_components # handler
                                else handler);
                             handler =
                               (if report_period r \<noteq> []
                                then Sort_xacts ''d''
                                       # Interval_xacts (report_period r) remember_components
                                       # handler
                                else handler)
                         in handler)))
        else Inr handler)
     of
       Inl e \<Rightarrow> Inl e
     | Inr handler \<Rightarrow>
         Inr (let handler = (if show_inverted r then Invert_xacts # handler else handler);
                  handler =
                    (if show_related r
                     then Related_xacts (show_all_related r) # handler
                     else handler);
                  handler =
                    (if predicate r \<noteq> [] then Filter_xacts (predicate r) # handler else handler);
                  handler =
                    (if comm_as_payee r then Set_comm_as_payee # handler
                     else if code_as_payee r then Set_code_as_payee # handler
                     else handler)
              in handler))"

section \<open>The helpers \<open>abbrev\<close> and \<open>ftime\<close>\<close>

text \<open>
  \<open>call_scope_t\<close> is the list of the call's arguments. The conversions of \<open>value_t\<close> and
  \<open>NULL_VALUE\<close> are declared outside \<open>report.cc\<close> and are parameters; a conversion may raise.
\<close>

record ('v, 't) value_ops =
  as_string :: "'v \<Rightarrow> error + string"
  as_long :: "'v \<Rightarrow> error + int"
  as_datetime :: "'v \<Rightarrow> error + 't"
  NULL_VALUE :: 'v

text \<open>\<open>report_t::abbrev\<close>, lines 281 to 305; the second argument is \<open>session.abbrev_length\<close>.\<close>

definition abbrev :: "('v, 't) value_ops \<Rightarrow> int \<Rightarrow> 'v list \<Rightarrow> error + 'v" where
  "abbrev ops session_abbrev_length args =
     (if length args < 2
      then Inl (Logic_error ''usage: abbrev(STRING, WIDTH [, STYLE, ABBREV_LEN])'')
      else
        (case as_string ops (args ! 0) of
           Inl e \<Rightarrow> Inl e
         | Inr str \<Rightarrow>
             (case (if length args = 4 then as_long ops (args ! 3)
                    else Inr session_abbrev_length) of
                Inl e \<Rightarrow> Inl e
              | Inr abbrev_len \<Rightarrow> Inr (NULL_VALUE ops))))"

text \<open>\<open>report_t::ftime\<close>, lines 307 to 326.\<close>

definition ftime :: "('v, 't) value_ops \<Rightarrow> 'v list \<Rightarrow> error + 'v" where
  "ftime ops args =
     (if length args < 1
      then Inl (Logic_error ''usage: ftime(DATE [, DATE_FORMAT])'')
      else
        (case as_datetime ops (args ! 0) of
           Inl e \<Rightarrow> Inl e
         | Inr date \<Rightarrow>
             (case (if length args = 2 then as_string ops (args ! 1) else Inr []) of
                Inl e \<Rightarrow> Inl e
              | Inr date_format \<Rightarrow> Inr (NULL_VALUE ops))))"

section \<open>Running the calc and filter stages\<close>

text \<open>
  A transaction as the two stages see it: its amount and the running total stamped on its
  scratch annotation. Amounts are values of any commutative group \<open>'a\<close>.
\<close>

record 'a xact_t =
  account :: string
  amount :: 'a
  total :: 'a

text \<open>
  Modelled from the spec: the class \<open>calc_xacts\<close> is defined outside \<open>report.cc\<close>. It "adds
  each passing transaction's amount (per commodity) to a running total and stamps it on the
  transaction's scratch annotation; totals reflect exactly the upstream-surviving
  subsequence seen so far". The first argument is the running total so far; the result is
  what the stage forwards.
\<close>

fun calc_xacts_run :: "'a::ab_group_add \<Rightarrow> 'a xact_t list \<Rightarrow> 'a xact_t list" where
  "calc_xacts_run running [] = []"
| "calc_xacts_run running (x # xs) =
     x\<lparr>total := running + amount x\<rparr> # calc_xacts_run (running + amount x) xs"

text \<open>
  Modelled from the spec: the class \<open>filter_xacts\<close> is defined outside \<open>report.cc\<close>. It
  "evaluates an externally supplied boolean expression per transaction; drops on false; no
  buffering".
\<close>

definition filter_xacts_run :: "('a xact_t \<Rightarrow> bool) \<Rightarrow> 'a xact_t list \<Rightarrow> 'a xact_t list" where
  "filter_xacts_run p xs = filter p xs"

text \<open>The total stamped on the last transaction that leaves a chain, if any leaves it.\<close>

definition final_total :: "'a xact_t list \<Rightarrow> 'a option" where
  "final_total ys = (if ys = [] then None else Some (total (last ys)))"

text \<open>
  The transactions that a filter removes ahead of the last transaction it keeps, latest
  first.
\<close>

definition removed_before_last_kept :: "('a \<Rightarrow> bool) \<Rightarrow> 'a list \<Rightarrow> 'a list" where
  "removed_before_last_kept p xs =
     filter (\<lambda>x. \<not> p x) (dropWhile (\<lambda>x. \<not> p x) (rev xs))"

text \<open>A predicate on the account alone.\<close>

definition in_account :: "string \<Rightarrow> 'a xact_t \<Rightarrow> bool" where
  "in_account a x = (account x = a)"

section \<open>Reading a chain\<close>

text \<open>
  The stages that the builder has put in front of \<open>base_handler\<close> in the chain \<open>h\<close> it
  returns, head first.
\<close>

definition inserted :: "'a list \<Rightarrow> 'a list \<Rightarrow> 'a list" where
  "inserted h base_handler = take (length h - length base_handler) h"

text \<open>\<open>flows_before a b h\<close>: an item meets a stage \<open>a\<close> and, later on its way, a stage \<open>b\<close>.\<close>

fun flows_before :: "'a \<Rightarrow> 'a \<Rightarrow> 'a list \<Rightarrow> bool" where
  "flows_before a b [] = False"
| "flows_before a b (x # xs) = ((x = a \<and> b \<in> set xs) \<or> flows_before a b xs)"

text \<open>\<open>feeds a b h\<close>: a stage \<open>a\<close> has \<open>b\<close> as its successor.\<close>

fun feeds :: "'a \<Rightarrow> 'a \<Rightarrow> 'a list \<Rightarrow> bool" where
  "feeds a b (x # y # ys) = ((x = a \<and> y = b) \<or> feeds a b (y # ys))"
| "feeds a b ys = False"

fun is_subtotal_family :: "('t, 'v, 'b) stage \<Rightarrow> bool" where
  "is_subtotal_family (Subtotal_xacts rc) = True"
| "is_subtotal_family (Dow_xacts rc) = True"
| "is_subtotal_family (By_payee_xacts rc) = True"
| "is_subtotal_family s = False"

fun is_component :: "('t, 'v, 'b) stage \<Rightarrow> bool" where
  "is_component (Component_xacts e) = True"
| "is_component s = False"

fun is_interval :: "('t, 'v, 'b) stage \<Rightarrow> bool" where
  "is_interval (Interval_xacts p rc) = True"
| "is_interval s = False"

text \<open>The \<open>remember_components\<close> argument of a stage that takes one.\<close>

fun remember_components_of :: "('t, 'v, 'b) stage \<Rightarrow> bool option" where
  "remember_components_of (Subtotal_xacts rc) = Some rc"
| "remember_components_of (Dow_xacts rc) = Some rc"
| "remember_components_of (By_payee_xacts rc) = Some rc"
| "remember_components_of (Interval_xacts p rc) = Some rc"
| "remember_components_of s = None"

text \<open>
  The classes that lines 47 to 149 construct, and the four groups that lines 153 to 207
  construct.
\<close>

fun individual_class :: "('t, 'v, 'b) stage \<Rightarrow> bool" where
  "individual_class (Truncate_entries h t) = True"
| "individual_class (Filter_xacts p) = True"
| "individual_class Calc_xacts = True"
| "individual_class (Component_xacts e) = True"
| "individual_class (Reconcile_xacts v t) = True"
| "individual_class (Sort_entries k) = True"
| "individual_class (Sort_xacts k) = True"
| "individual_class (Changed_value_xacts b) = True"
| "individual_class Collapse_xacts = True"
| "individual_class (Subtotal_xacts rc) = True"
| "individual_class (Dow_xacts rc) = True"
| "individual_class (By_payee_xacts rc) = True"
| "individual_class (Interval_xacts p rc) = True"
| "individual_class s = False"

section \<open>Splitting on semicolons, as a specification\<close>

text \<open>
  The expressions of a descend expression as they are written: the pieces between the
  semicolons, in order, empty pieces included. \<open>join_semicolon\<close> writes them back.
\<close>

fun split_on_semicolon :: "string \<Rightarrow> string list" where
  "split_on_semicolon [] = [[]]"
| "split_on_semicolon (c # cs) =
     (if c = CHR '';'' then [] # split_on_semicolon cs
      else (case split_on_semicolon cs of
              [] \<Rightarrow> [[c]]
            | seg # segs \<Rightarrow> (c # seg) # segs))"

fun join_semicolon :: "string list \<Rightarrow> string" where
  "join_semicolon [] = []"
| "join_semicolon [seg] = seg"
| "join_semicolon (seg # segs) = seg @ CHR '';'' # join_semicolon segs"

section \<open>The groups of stages of a chain\<close>

definition stages_if :: "bool \<Rightarrow> 'a list \<Rightarrow> 'a list" where
  "stages_if c xs = (if c then xs else [])"

text \<open>Lines 153 to 207, read from the head of the chain.\<close>

definition common_stages :: "report_t \<Rightarrow> ('t, 'v, 'b) stage list" where
  "common_stages r =
     (if comm_as_payee r then [Set_comm_as_payee]
      else stages_if (code_as_payee r) [Set_code_as_payee])
     @ stages_if (predicate r \<noteq> []) [Filter_xacts (predicate r)]
     @ stages_if (show_related r) [Related_xacts (show_all_related r)]
     @ stages_if (show_inverted r) [Invert_xacts]"

text \<open>Lines 99 to 148, read from the head of the chain.\<close>

definition upper_stages :: "report_t \<Rightarrow> bool \<Rightarrow> ('t, 'v, 'b) stage list" where
  "upper_stages r rc =
     stages_if (report_period r \<noteq> []) [Sort_xacts ''d'', Interval_xacts (report_period r) rc]
     @ (if days_of_the_week r then [Dow_xacts rc] else stages_if (by_payee r) [By_payee_xacts rc])
     @ stages_if (show_subtotal r) [Subtotal_xacts rc]
     @ stages_if (show_collapsed r) [Collapse_xacts]
     @ stages_if (show_revalued r) [Changed_value_xacts (show_revalued_only r)]
     @ stages_if (sort_string r \<noteq> [])
         [if entry_sort r then Sort_entries (sort_string r) else Sort_xacts (sort_string r)]
     @ stages_if (secondary_predicate r \<noteq> []) [Filter_xacts (secondary_predicate r)]"

text \<open>Lines 89 to 95.\<close>

definition reconcile_stages ::
  "('t, 'v) externals \<Rightarrow> report_t \<Rightarrow> error + ('t, 'v, 'b) stage list" where
  "reconcile_stages ext r =
     (if reconcile_balance r \<noteq> [] then
        (case (if reconcile_date r \<noteq> [] then parse_datetime ext (reconcile_date r)
               else Inr (current_moment ext)) of
           Inl e \<Rightarrow> Inl e
         | Inr cutoff \<Rightarrow>
             (case value_t ext (reconcile_balance r) of
                Inl e \<Rightarrow> Inl e
              | Inr balance \<Rightarrow> Inr [Reconcile_xacts balance cutoff]))
      else Inr [])"

text \<open>Lines 67 to 84, with the specification of the split.\<close>

definition component_stages :: "report_t \<Rightarrow> ('t, 'v, 'b) stage list" where
  "component_stages r =
     stages_if (descend_expr r \<noteq> [])
       (map Component_xacts (split_on_semicolon (descend_expr r)))"

text \<open>Lines 50 to 61, read from the head of the chain.\<close>

definition lower_stages :: "report_t \<Rightarrow> ('t, 'v, 'b) stage list" where
  "lower_stages r =
     Calc_xacts
     # stages_if (display_predicate r \<noteq> []) [Filter_xacts (display_predicate r)]
     @ stages_if (head_entries r \<noteq> 0 \<or> tail_entries r \<noteq> 0)
         [Truncate_entries (head_entries r) (tail_entries r)]"

section \<open>Sample inputs\<close>

text \<open>A report with no option set, and externals whose parsers accept every string.\<close>

definition no_options :: report_t where
  "no_options =
     \<lparr>head_entries = 0, tail_entries = 0, display_predicate = [], descend_expr = [],
      reconcile_balance = [], reconcile_date = [], secondary_predicate = [],
      sort_string = [], entry_sort = False, show_revalued = False,
      show_revalued_only = False, show_collapsed = False, show_subtotal = False,
      days_of_the_week = False, by_payee = False, report_period = [],
      show_inverted = False, show_related = False, show_all_related = False,
      predicate = [], comm_as_payee = False, code_as_payee = False\<rparr>"

definition accept_string :: "string \<Rightarrow> error + string" where
  "accept_string s = Inr s"

definition externals_at :: "nat \<Rightarrow> (nat, string) externals" where
  "externals_at now =
     \<lparr>current_moment = now, parse_datetime = Inr \<circ> length, value_t = accept_string\<rparr>"

definition formatter :: "(nat, string, nat) xact_handler" where
  "formatter = [Other_handler 0]"

text \<open>Conversions that reject every value.\<close>

definition reject_value :: "nat \<Rightarrow> error + 'a" where
  "reject_value v = Inl (Callee_error ''wrong type'')"

definition rejecting_ops :: "(nat, nat) value_ops" where
  "rejecting_ops =
     \<lparr>as_string = reject_value, as_long = reject_value, as_datetime = reject_value,
      NULL_VALUE = 0\<rparr>"

section \<open>The split loop computes the specified split\<close>

lemma split_on_semicolon_nonempty: "split_on_semicolon s \<noteq> []"
  by (induction s) (auto split: list.splits)

lemma join_split_on_semicolon: "join_semicolon (split_on_semicolon s) = s"
proof (induction s)
  case Nil
  show ?case by simp
next
  case (Cons c cs)
  obtain seg segs where "split_on_semicolon cs = seg # segs"
    using split_on_semicolon_nonempty [of cs] by (cases "split_on_semicolon cs") auto
  with Cons show ?case by (cases segs) auto
qed

lemma split_on_semicolon_free:
  "seg \<in> set (split_on_semicolon s) \<Longrightarrow> CHR '';'' \<notin> set seg"
proof (induction s arbitrary: seg)
  case Nil
  then show ?case by simp
next
  case (Cons c cs)
  obtain x xs where "split_on_semicolon cs = x # xs"
    using split_on_semicolon_nonempty [of cs] by (cases "split_on_semicolon cs") auto
  with Cons show ?case by (auto split: if_splits)
qed

lemma length_split_on_semicolon:
  "length (split_on_semicolon s) = Suc (count_list s CHR '';'')"
proof (induction s)
  case Nil
  show ?case by simp
next
  case (Cons c cs)
  obtain x xs where "split_on_semicolon cs = x # xs"
    using split_on_semicolon_nonempty [of cs] by (cases "split_on_semicolon cs") auto
  with Cons show ?case by auto
qed

lemma split_on_semicolon_append:
  "split_on_semicolon (a @ CHR '';'' # b) = split_on_semicolon a @ split_on_semicolon b"
proof (induction a)
  case Nil
  show ?case by simp
next
  case (Cons c cs)
  obtain x xs where "split_on_semicolon cs = x # xs"
    using split_on_semicolon_nonempty [of cs] by (cases "split_on_semicolon cs") auto
  with Cons show ?case by auto
qed

lemma find_from_step:
  "q < length s \<Longrightarrow>
     find_from s c q = (if s ! q = c then Some q else find_from s c (Suc q))"
  by simp

lemma find_from_end: "length s \<le> q \<Longrightarrow> find_from s c q = None"
  by simp

text \<open>
  The invariant of the loop: \<open>beg \<le> length s\<close>, so the substring constructor never
  raises, and \<open>pos\<close> is the result of a search that started at or after \<open>beg\<close>, so
  \<open>pos - beg\<close> never wraps.
\<close>

lemma descend_split_general:
  "beg \<le> q \<Longrightarrow> q \<le> length s \<Longrightarrow>
     descend_split s beg (find_from s CHR '';'' q) acc =
       Inr (acc @ (case split_on_semicolon (drop q s) of
                     [] \<Rightarrow> []
                   | seg # segs \<Rightarrow> (take (q - beg) (drop beg s) @ seg) # segs))"
proof (induction "length s - q" arbitrary: q beg acc)
  case 0
  then have q: "q = length s" by simp
  then have "find_from s CHR '';'' q = None" by (simp add: find_from_end)
  with q 0 show ?case
    by (simp add: descend_split.simps [of s beg None] substring_def)
next
  case (Suc n)
  then have q: "q < length s" by simp
  have dq: "drop q s = s ! q # drop (Suc q) s"
    using q by (simp add: Cons_nth_drop_Suc)
  obtain x xs where eq: "split_on_semicolon (drop (Suc q) s) = x # xs"
    using split_on_semicolon_nonempty [of "drop (Suc q) s"]
    by (cases "split_on_semicolon (drop (Suc q) s)") auto
  have n: "n = length s - Suc q" using Suc.hyps(2) by simp
  show ?case
  proof (cases "s ! q = CHR '';''")
    case True
    have f: "find_from s CHR '';'' q = Some q"
      using q True by (simp add: find_from_step del: find_from.simps)
    have ih: "descend_split s (Suc q) (find_from s CHR '';'' (Suc q))
                (acc @ [take (q - beg) (drop beg s)]) =
              Inr (acc @ take (q - beg) (drop beg s) # x # xs)"
      using Suc.hyps(1) [OF n, of "Suc q" "acc @ [take (q - beg) (drop beg s)]"] q
      by (simp add: eq del: find_from.simps descend_split.simps)
    have sub: "substring s beg (Some (q - beg)) = Inr (take (q - beg) (drop beg s))"
      using Suc.prems q by (simp add: substring_def)
    show ?thesis
      by (simp add: f descend_split.simps [of s beg "Some q"] sub ih dq True eq
            del: find_from.simps descend_split.simps)
  next
    case False
    have f: "find_from s CHR '';'' q = find_from s CHR '';'' (Suc q)"
      using q False by (simp add: find_from_step del: find_from.simps)
    have tk: "take (Suc q - beg) (drop beg s) = take (q - beg) (drop beg s) @ [s ! q]"
    proof -
      have "Suc q - beg = Suc (q - beg)" using Suc.prems by simp
      moreover have "q - beg < length (drop beg s)" using q Suc.prems by simp
      moreover have "drop beg s ! (q - beg) = s ! q" using q Suc.prems by simp
      ultimately show ?thesis by (simp add: take_Suc_conv_app_nth)
    qed
    have ih: "descend_split s beg (find_from s CHR '';'' (Suc q)) acc =
              Inr (acc @ (take (Suc q - beg) (drop beg s) @ x) # xs)"
      using Suc.hyps(1) [OF n, of beg acc] q Suc.prems
      by (simp add: eq del: find_from.simps descend_split.simps)
    show ?thesis
      by (simp add: f ih tk dq False eq del: find_from.simps descend_split.simps)
  qed
qed

lemma descend_split_correct:
  "descend_split s 0 (find_from s CHR '';'' 0) [] = Inr (split_on_semicolon s)"
  using descend_split_general [of 0 0 s "[]"]
  by (cases "split_on_semicolon s")
     (simp_all add: split_on_semicolon_nonempty del: find_from.simps descend_split.simps)

section \<open>The shape of the chain\<close>

lemma stages_if_False: "stages_if False xs = []"
  by (simp add: stages_if_def)

lemma stages_if_True: "stages_if True xs = xs"
  by (simp add: stages_if_def)

lemma stages_if_Nil: "stages_if c [] = []"
  by (simp add: stages_if_def)

lemma filter_stages_if: "filter P (stages_if c xs) = stages_if c (filter P xs)"
  by (simp add: stages_if_def)

lemma set_stages_if: "x \<in> set (stages_if c xs) \<longleftrightarrow> c \<and> x \<in> set xs"
  by (simp add: stages_if_def)

lemma prepend_if: "(if c then x # h else h) = stages_if c [x] @ h"
  by (simp add: stages_if_def)

lemma prepend_if2: "(if c then x # y # h else h) = stages_if c [x, y] @ h"
  by (simp add: stages_if_def)

lemma prepend_either: "(if c then x # h else y # h) = (if c then x else y) # h"
  by simp

lemma prepend_else: "(if c then x # h else ys @ h) = (if c then [x] else ys) @ h"
  by simp

lemma fold_component:
  "fold (\<lambda>i h. Component_xacts i # h) (rev es) h = map Component_xacts es @ h"
  by (induction es arbitrary: h) simp_all

lemma chain_xact_handlers_aggregate:
  "chain_xact_handlers ext r base False = Inr (common_stages r @ base)"
  unfolding chain_xact_handlers_def Let_def common_stages_def
  by (simp only: prepend_if prepend_else if_False sum.case append_assoc)

lemma chain_xact_handlers_individual:
  "chain_xact_handlers ext r base True =
     (case reconcile_stages ext r of
        Inl e \<Rightarrow> Inl e
      | Inr rs \<Rightarrow>
          Inr (common_stages r @ upper_stages r (descend_expr r \<noteq> []) @ rs
               @ component_stages r @ lower_stages r @ base))"
proof (cases "descend_expr r = []")
  case True
  show ?thesis
    unfolding chain_xact_handlers_def Let_def
    apply (simp only: prepend_if prepend_if2 prepend_either prepend_else if_True if_False
        sum.case True append_assoc not_True_eq_False not_False_eq_True prod.case simp_thms)
    apply (simp add: reconcile_stages_def component_stages_def lower_stages_def
        upper_stages_def common_stages_def True stages_if_False split: sum.splits)
    done
next
  case False
  show ?thesis
    unfolding chain_xact_handlers_def Let_def
    apply (simp only: prepend_if prepend_if2 prepend_either prepend_else if_True if_False
        sum.case False append_assoc not_True_eq_False not_False_eq_True prod.case simp_thms
        descend_split_correct fold_component)
    apply (simp add: reconcile_stages_def component_stages_def lower_stages_def
        upper_stages_def common_stages_def False stages_if_True split: sum.splits)
    done
qed

lemma reconcile_stages_cases:
  "reconcile_stages ext r = Inr rs \<Longrightarrow>
     (reconcile_balance r = [] \<and> rs = []) \<or>
     (reconcile_balance r \<noteq> [] \<and> (\<exists>v t. rs = [Reconcile_xacts v t]))"
  by (auto simp: reconcile_stages_def split: if_splits sum.splits)

lemma chain_xact_handlers_shape:
  fixes ext :: "('t, 'v) externals" and base h :: "('t, 'v, 'b) xact_handler"
  assumes "chain_xact_handlers ext r base True = Inr h"
  obtains rs where "reconcile_stages ext r = Inr rs"
    and "h = common_stages r @ upper_stages r (descend_expr r \<noteq> []) @ rs
               @ component_stages r @ lower_stages r @ base"
  using assms unfolding chain_xact_handlers_individual
  by (cases "reconcile_stages ext r :: error + ('t, 'v, 'b) stage list") simp_all

lemma inserted_append: "inserted (ins @ base) base = ins"
  by (simp add: inserted_def)

text \<open>The builder returns a chain whenever the two parsers accept what they are given.\<close>

lemma chain_xact_handlers_returns:
  fixes ext :: "('t, 'v) externals" and base :: "('t, 'v, 'b) xact_handler"
  assumes "handle_individual_xacts \<Longrightarrow> reconcile_balance r \<noteq> [] \<Longrightarrow>
             (\<exists>v. value_t ext (reconcile_balance r) = Inr v) \<and>
             (reconcile_date r \<noteq> [] \<longrightarrow> (\<exists>t. parse_datetime ext (reconcile_date r) = Inr t))"
  shows "\<exists>h. chain_xact_handlers ext r base handle_individual_xacts = Inr h"
proof (cases handle_individual_xacts)
  case False
  then show ?thesis by (simp add: chain_xact_handlers_aggregate)
next
  case True
  have "\<exists>rs. (reconcile_stages ext r :: error + ('t, 'v, 'b) stage list) = Inr rs"
    using assms [OF True] by (auto simp: reconcile_stages_def)
  with True show ?thesis by (auto simp: chain_xact_handlers_individual)
qed

section \<open>Usage errors of the helpers\<close>

text \<open>
  C9: \<open>abbrev\<close> called with fewer than two arguments raises the logic error whose message is
  its usage line, and \<open>ftime\<close> called with no argument raises the logic error whose message
  is its usage line. The test of the count is the first statement of each function: the
  result is this error whatever the arguments are and whatever the conversions would do,
  and nothing but the error leaves the call.
\<close>

theorem usage_errors:
  "(length args < 2 \<longrightarrow>
      abbrev ops session_abbrev_length args =
        Inl (Logic_error ''usage: abbrev(STRING, WIDTH [, STYLE, ABBREV_LEN])'')) \<and>
   (length args < 1 \<longrightarrow>
      ftime ops args = Inl (Logic_error ''usage: ftime(DATE [, DATE_FORMAT])''))"
  by (simp add: abbrev_def ftime_def)

theorem usage_errors_witness:
  "length [7::nat] < 2 \<and>
   abbrev rejecting_ops 2 [7] =
     Inl (Logic_error ''usage: abbrev(STRING, WIDTH [, STYLE, ABBREV_LEN])'') \<and>
   length ([] :: nat list) < 1 \<and>
   ftime rejecting_ops [] = Inl (Logic_error ''usage: ftime(DATE [, DATE_FORMAT])'')"
  using usage_errors [of "[7::nat]" rejecting_ops 2] usage_errors [of "[] :: nat list" rejecting_ops 2]
  by simp

section \<open>Membership in the groups of stages\<close>

lemma common_stages_kinds:
  "s \<in> set (common_stages r) \<Longrightarrow>
     s = Set_comm_as_payee \<or> s = Set_code_as_payee \<or> s = Filter_xacts (predicate r)
     \<or> s = Related_xacts (show_all_related r) \<or> s = Invert_xacts"
  by (auto simp: common_stages_def set_stages_if split: if_splits)

lemma upper_stages_kinds:
  "s \<in> set (upper_stages r rc) \<Longrightarrow>
     s = Sort_xacts ''d'' \<or> s = Interval_xacts (report_period r) rc \<or> s = Dow_xacts rc
     \<or> s = By_payee_xacts rc \<or> s = Subtotal_xacts rc \<or> s = Collapse_xacts
     \<or> s = Changed_value_xacts (show_revalued_only r) \<or> s = Sort_entries (sort_string r)
     \<or> s = Sort_xacts (sort_string r) \<or> s = Filter_xacts (secondary_predicate r)"
  by (auto simp: upper_stages_def set_stages_if split: if_splits)

lemma reconcile_stages_kinds:
  "reconcile_stages ext r = Inr rs \<Longrightarrow> s \<in> set rs \<Longrightarrow> \<exists>v t. s = Reconcile_xacts v t"
  by (auto dest: reconcile_stages_cases)

lemma component_stages_kinds:
  "s \<in> set (component_stages r) \<Longrightarrow> \<exists>e. s = Component_xacts e"
  by (auto simp: component_stages_def set_stages_if)

lemma lower_stages_kinds:
  "s \<in> set (lower_stages r) \<Longrightarrow>
     s = Calc_xacts \<or> s = Filter_xacts (display_predicate r)
     \<or> s = Truncate_entries (head_entries r) (tail_entries r)"
  by (auto simp: lower_stages_def set_stages_if)

lemma filter_component_stages:
  "filter is_component (component_stages r) = component_stages r"
  by (simp add: component_stages_def stages_if_def filter_map comp_def)

lemma filter_none:
  "(\<And>s. s \<in> set xs \<Longrightarrow> \<not> P s) \<Longrightarrow> filter P xs = []"
  by (induction xs) auto

lemma components_of_individual:
  fixes ext :: "('t, 'v) externals" and base h :: "('t, 'v, 'b) xact_handler"
  assumes "chain_xact_handlers ext r base True = Inr h"
  shows "filter is_component (inserted h base) = component_stages r"
proof -
  obtain rs :: "('t, 'v, 'b) stage list" where rs: "reconcile_stages ext r = Inr rs"
    and h: "h = common_stages r @ upper_stages r (descend_expr r \<noteq> []) @ rs
                 @ component_stages r @ lower_stages r @ base"
    using assms by (rule chain_xact_handlers_shape)
  have ins: "inserted h base = common_stages r @ upper_stages r (descend_expr r \<noteq> []) @ rs
                 @ component_stages r @ lower_stages r"
    using inserted_append [of "common_stages r @ upper_stages r (descend_expr r \<noteq> []) @ rs
                 @ component_stages r @ lower_stages r" base]
    by (simp add: h)
  have 1: "filter is_component (common_stages r :: ('t, 'v, 'b) stage list) = []"
    by (rule filter_none) (auto dest: common_stages_kinds)
  have 2: "filter is_component
             (upper_stages r (descend_expr r \<noteq> []) :: ('t, 'v, 'b) stage list) = []"
    by (rule filter_none) (auto dest: upper_stages_kinds)
  have 3: "filter is_component rs = []"
    by (rule filter_none) (auto dest: reconcile_stages_kinds [OF rs])
  have 4: "filter is_component (lower_stages r :: ('t, 'v, 'b) stage list) = []"
    by (rule filter_none) (auto dest: lower_stages_kinds)
  show ?thesis
    by (simp add: ins 1 2 3 4 filter_component_stages)
qed

section \<open>The order of calc and the display filter\<close>

text \<open>
  C1, as the claim states it, fails: with only a display predicate set, the chain is calc,
  then the display filter, then the caller's handler, so no item meets the display filter
  before calc.
\<close>

theorem display_filter_before_calc_counterexample:
  "chain_xact_handlers (externals_at 0) (no_options\<lparr>display_predicate := ''a>0''\<rparr>)
       formatter True
     = Inr [Calc_xacts, Filter_xacts ''a>0'', Other_handler 0] \<and>
   \<not> flows_before (Filter_xacts ''a>0'') Calc_xacts
       [Calc_xacts, Filter_xacts ''a>0'', Other_handler 0 :: (nat, string, nat) stage]"
  by (simp add: chain_xact_handlers_def no_options_def formatter_def)

text \<open>
  C1, amended: in individual mode with a display predicate, the stages that the builder
  inserts contain exactly one calc stage, and its successor is the display filter: every
  item that reaches the display filter has been through calc, and the running total counts
  the items that the display filter drops. Behind the display filter the builder inserts no
  calc stage and no further filter.
\<close>

theorem calc_feeds_display_filter:
  fixes ext :: "('t, 'v) externals" and base h :: "('t, 'v, 'b) xact_handler"
  assumes "display_predicate r \<noteq> []"
    and "chain_xact_handlers ext r base True = Inr h"
  shows "\<exists>pre post.
           inserted h base = pre @ Calc_xacts # Filter_xacts (display_predicate r) # post \<and>
           Calc_xacts \<notin> set pre \<and> Calc_xacts \<notin> set post \<and>
           (\<forall>p. Filter_xacts p \<notin> set post)"
proof -
  obtain rs :: "('t, 'v, 'b) stage list" where rs: "reconcile_stages ext r = Inr rs"
    and h: "h = common_stages r @ upper_stages r (descend_expr r \<noteq> []) @ rs
                 @ component_stages r @ lower_stages r @ base"
    using assms(2) by (rule chain_xact_handlers_shape)
  let ?pre = "common_stages r @ upper_stages r (descend_expr r \<noteq> []) @ rs
                 @ component_stages r :: ('t, 'v, 'b) stage list"
  let ?post = "stages_if (head_entries r \<noteq> 0 \<or> tail_entries r \<noteq> 0)
                 [Truncate_entries (head_entries r) (tail_entries r)] :: ('t, 'v, 'b) stage list"
  have "inserted h base = ?pre @ lower_stages r"
    using inserted_append [of "?pre @ lower_stages r" base] by (simp add: h)
  then have "inserted h base = ?pre @ Calc_xacts # Filter_xacts (display_predicate r) # ?post"
    using assms(1) by (simp add: lower_stages_def stages_if_True)
  moreover have "Calc_xacts \<notin> set ?pre"
    by (auto dest: common_stages_kinds upper_stages_kinds reconcile_stages_kinds [OF rs]
          component_stages_kinds)
  moreover have "Calc_xacts \<notin> set ?post" "\<forall>p. Filter_xacts p \<notin> set ?post"
    by (simp_all add: set_stages_if)
  ultimately show ?thesis by blast
qed

theorem calc_feeds_display_filter_witness:
  "display_predicate (no_options\<lparr>display_predicate := ''a>0'', predicate := ''a>0''\<rparr>) \<noteq> [] \<and>
   chain_xact_handlers (externals_at 0)
       (no_options\<lparr>display_predicate := ''a>0'', predicate := ''a>0''\<rparr>) formatter True
     = Inr [Filter_xacts ''a>0'', Calc_xacts, Filter_xacts ''a>0'', Other_handler 0] \<and>
   (\<exists>pre post.
      inserted [Filter_xacts ''a>0'', Calc_xacts, Filter_xacts ''a>0'', Other_handler 0] formatter
        = pre @ Calc_xacts # Filter_xacts ''a>0'' # post \<and>
      Calc_xacts \<notin> set pre \<and> Calc_xacts \<notin> set post \<and> (\<forall>p. Filter_xacts p \<notin> set post))"
proof -
  have c: "chain_xact_handlers (externals_at 0)
       (no_options\<lparr>display_predicate := ''a>0'', predicate := ''a>0''\<rparr>) formatter True
     = Inr [Filter_xacts ''a>0'', Calc_xacts, Filter_xacts ''a>0'', Other_handler 0]"
    by (simp add: chain_xact_handlers_def no_options_def formatter_def)
  have d: "display_predicate (no_options\<lparr>display_predicate := ''a>0'', predicate := ''a>0''\<rparr>) \<noteq> []"
    by simp
  from calc_feeds_display_filter [OF d c] c d show ?thesis by simp
qed

section \<open>The subtotal family\<close>

text \<open>
  C2, as the claim states it, fails: with \<open>show_subtotal\<close> and \<open>days_of_the_week\<close> both set
  the builder inserts two stages of the subtotal family, not one.
\<close>

theorem one_subtotal_stage_counterexample:
  "chain_xact_handlers (externals_at 0)
       (no_options\<lparr>show_subtotal := True, days_of_the_week := True\<rparr>) formatter True
     = Inr [Dow_xacts False, Subtotal_xacts False, Calc_xacts, Other_handler 0] \<and>
   \<not> length (filter is_subtotal_family
         (inserted [Dow_xacts False, Subtotal_xacts False, Calc_xacts, Other_handler 0]
            formatter)) \<le> 1"
  by (simp add: chain_xact_handlers_def no_options_def formatter_def inserted_def)

text \<open>
  C2, amended: of the day-of-week and by-payee stages at most one is inserted, and
  day-of-week wins when both options are set. The plain subtotal stage is inserted whenever
  \<open>show_subtotal\<close> is set, whatever the other two options are, so the chain holds up to two
  stages of the family; the plain subtotal stage is then downstream of the other. In
  aggregate mode none is inserted.
\<close>

theorem subtotal_family_stages:
  fixes ext :: "('t, 'v) externals" and base h :: "('t, 'v, 'b) xact_handler"
  assumes "chain_xact_handlers ext r base handle_individual_xacts = Inr h"
  shows "filter is_subtotal_family (inserted h base) =
           (if handle_individual_xacts then
              (if days_of_the_week r then [Dow_xacts (descend_expr r \<noteq> [])]
               else if by_payee r then [By_payee_xacts (descend_expr r \<noteq> [])]
               else [])
              @ (if show_subtotal r then [Subtotal_xacts (descend_expr r \<noteq> [])] else [])
            else [])"
proof (cases handle_individual_xacts)
  case False
  with assms have h: "h = common_stages r @ base"
    by (simp add: chain_xact_handlers_aggregate)
  have "filter is_subtotal_family (common_stages r :: ('t, 'v, 'b) stage list) = []"
    by (rule filter_none) (auto dest: common_stages_kinds)
  with False show ?thesis
    using inserted_append [of "common_stages r" base] by (simp add: h)
next
  case True
  with assms have c: "chain_xact_handlers ext r base True = Inr h" by simp
  obtain rs :: "('t, 'v, 'b) stage list" where rs: "reconcile_stages ext r = Inr rs"
    and h: "h = common_stages r @ upper_stages r (descend_expr r \<noteq> []) @ rs
                 @ component_stages r @ lower_stages r @ base"
    using c by (rule chain_xact_handlers_shape)
  have ins: "inserted h base = common_stages r @ upper_stages r (descend_expr r \<noteq> []) @ rs
                 @ component_stages r @ lower_stages r"
    using inserted_append [of "common_stages r @ upper_stages r (descend_expr r \<noteq> []) @ rs
                 @ component_stages r @ lower_stages r" base]
    by (simp add: h)
  have 1: "filter is_subtotal_family (common_stages r :: ('t, 'v, 'b) stage list) = []"
    by (rule filter_none) (auto dest: common_stages_kinds)
  have 2: "filter is_subtotal_family rs = []"
    by (rule filter_none) (auto dest: reconcile_stages_kinds [OF rs])
  have 3: "filter is_subtotal_family (component_stages r :: ('t, 'v, 'b) stage list) = []"
    by (rule filter_none) (auto dest: component_stages_kinds)
  have 4: "filter is_subtotal_family (lower_stages r :: ('t, 'v, 'b) stage list) = []"
    by (rule filter_none) (auto dest: lower_stages_kinds)
  have 5: "filter is_subtotal_family (upper_stages r rc :: ('t, 'v, 'b) stage list) =
             (if days_of_the_week r then [Dow_xacts rc]
              else if by_payee r then [By_payee_xacts rc] else [])
             @ (if show_subtotal r then [Subtotal_xacts rc] else [])" for rc
    by (simp add: upper_stages_def filter_stages_if stages_if_Nil) (simp add: stages_if_def)
  show ?thesis
    by (simp only: ins filter_append 1 2 3 4 5 True if_True append_Nil append_Nil2)
qed

theorem subtotal_family_stages_witness:
  "chain_xact_handlers (externals_at 0)
       (no_options\<lparr>show_subtotal := True, days_of_the_week := True, by_payee := True\<rparr>)
       formatter True
     = Inr [Dow_xacts False, Subtotal_xacts False, Calc_xacts, Other_handler 0] \<and>
   filter is_subtotal_family
       (inserted [Dow_xacts False, Subtotal_xacts False, Calc_xacts, Other_handler 0] formatter)
     = [Dow_xacts False, Subtotal_xacts False]"
proof -
  have c: "chain_xact_handlers (externals_at 0)
       (no_options\<lparr>show_subtotal := True, days_of_the_week := True, by_payee := True\<rparr>)
       formatter True
     = Inr [Dow_xacts False, Subtotal_xacts False, Calc_xacts, Other_handler 0]"
    by (simp add: chain_xact_handlers_def no_options_def formatter_def)
  from subtotal_family_stages [OF c] c show ?thesis
    by (simp add: no_options_def)
qed

section \<open>The interval stage and its date sort\<close>

text \<open>
  C3, as the claim states it, fails: with only a report period set, the chain is the date
  sort, then the interval stage, then calc; the successor of the interval stage is not the
  date sort.
\<close>

theorem sort_after_interval_counterexample:
  "chain_xact_handlers (externals_at 0) (no_options\<lparr>report_period := ''monthly''\<rparr>)
       formatter True
     = Inr [Sort_xacts ''d'', Interval_xacts ''monthly'' False, Calc_xacts, Other_handler 0] \<and>
   \<not> feeds (Interval_xacts ''monthly'' False) (Sort_xacts ''d'')
       [Sort_xacts ''d'', Interval_xacts ''monthly'' False, Calc_xacts,
        Other_handler 0 :: (nat, string, nat) stage]"
  by (simp add: chain_xact_handlers_def no_options_def formatter_def)

text \<open>
  C3, amended: when \<open>report_period\<close> is non-empty and individual mode is on, the builder
  inserts one interval stage and a date sort (key \<open>d\<close>) whose successor is that interval
  stage: in flow order the date sort is immediately upstream of the interval stage and
  orders the items that the interval stage receives.
\<close>

theorem date_sort_feeds_interval:
  fixes ext :: "('t, 'v) externals" and base h :: "('t, 'v, 'b) xact_handler"
  assumes "report_period r \<noteq> []"
    and "chain_xact_handlers ext r base True = Inr h"
  shows "\<exists>pre post.
           inserted h base =
             pre @ Sort_xacts ''d''
                 # Interval_xacts (report_period r) (descend_expr r \<noteq> []) # post \<and>
           (\<forall>s \<in> set pre. \<not> is_interval s) \<and> (\<forall>s \<in> set post. \<not> is_interval s)"
proof -
  obtain rs :: "('t, 'v, 'b) stage list" where rs: "reconcile_stages ext r = Inr rs"
    and h: "h = common_stages r @ upper_stages r (descend_expr r \<noteq> []) @ rs
                 @ component_stages r @ lower_stages r @ base"
    using assms(2) by (rule chain_xact_handlers_shape)
  define rest :: "('t, 'v, 'b) stage list" where
    "rest = (if days_of_the_week r then [Dow_xacts (descend_expr r \<noteq> [])]
             else stages_if (by_payee r) [By_payee_xacts (descend_expr r \<noteq> [])])
       @ stages_if (show_subtotal r) [Subtotal_xacts (descend_expr r \<noteq> [])]
       @ stages_if (show_collapsed r) [Collapse_xacts]
       @ stages_if (show_revalued r) [Changed_value_xacts (show_revalued_only r)]
       @ stages_if (sort_string r \<noteq> [])
           [if entry_sort r then Sort_entries (sort_string r) else Sort_xacts (sort_string r)]
       @ stages_if (secondary_predicate r \<noteq> []) [Filter_xacts (secondary_predicate r)]"
  let ?post = "rest @ rs @ component_stages r @ lower_stages r"
  have up: "upper_stages r (descend_expr r \<noteq> []) =
              Sort_xacts ''d'' # Interval_xacts (report_period r) (descend_expr r \<noteq> []) # rest"
    using assms(1) by (simp add: upper_stages_def rest_def stages_if_True)
  have "inserted h base =
          common_stages r @ Sort_xacts ''d''
            # Interval_xacts (report_period r) (descend_expr r \<noteq> []) # ?post"
    using inserted_append [of "common_stages r @ Sort_xacts ''d''
            # Interval_xacts (report_period r) (descend_expr r \<noteq> []) # ?post" base]
    by (simp add: h up)
  moreover have "\<forall>s \<in> set (common_stages r :: ('t, 'v, 'b) stage list). \<not> is_interval s"
    by (auto dest: common_stages_kinds)
  moreover have "\<forall>s \<in> set rest. \<not> is_interval s"
    by (auto simp: rest_def set_stages_if split: if_splits)
  then have "\<forall>s \<in> set ?post. \<not> is_interval s"
    by (auto dest: reconcile_stages_kinds [OF rs] component_stages_kinds lower_stages_kinds)
  ultimately show ?thesis by blast
qed

theorem date_sort_feeds_interval_witness:
  "report_period (no_options\<lparr>report_period := ''monthly'', sort_string := ''d''\<rparr>) \<noteq> [] \<and>
   chain_xact_handlers (externals_at 0)
       (no_options\<lparr>report_period := ''monthly'', sort_string := ''d''\<rparr>) formatter True
     = Inr [Sort_xacts ''d'', Interval_xacts ''monthly'' False, Sort_xacts ''d'', Calc_xacts,
            Other_handler 0] \<and>
   (\<exists>pre post.
      inserted [Sort_xacts ''d'', Interval_xacts ''monthly'' False, Sort_xacts ''d'', Calc_xacts,
                Other_handler 0] formatter
        = pre @ Sort_xacts ''d'' # Interval_xacts ''monthly'' False # post \<and>
      (\<forall>s \<in> set pre. \<not> is_interval s) \<and> (\<forall>s \<in> set post. \<not> is_interval s))"
proof -
  have c: "chain_xact_handlers (externals_at 0)
       (no_options\<lparr>report_period := ''monthly'', sort_string := ''d''\<rparr>) formatter True
     = Inr [Sort_xacts ''d'', Interval_xacts ''monthly'' False, Sort_xacts ''d'', Calc_xacts,
            Other_handler 0]"
    by (simp add: chain_xact_handlers_def no_options_def formatter_def)
  have p: "report_period (no_options\<lparr>report_period := ''monthly'', sort_string := ''d''\<rparr>) \<noteq> []"
    by simp
  from date_sort_feeds_interval [OF p c] c p show ?thesis
    by (simp add: no_options_def)
qed

section \<open>The component stages\<close>

lemma components_of_aggregate:
  fixes ext :: "('t, 'v) externals" and base h :: "('t, 'v, 'b) xact_handler"
  assumes "chain_xact_handlers ext r base False = Inr h"
  shows "filter is_component (inserted h base) = []"
proof -
  from assms have "h = common_stages r @ base"
    by (simp add: chain_xact_handlers_aggregate)
  then have "inserted h base = common_stages r"
    using inserted_append [of "common_stages r" base] by simp
  moreover have "filter is_component (common_stages r :: ('t, 'v, 'b) stage list) = []"
    by (rule filter_none) (auto dest: common_stages_kinds)
  ultimately show ?thesis by simp
qed

lemma components_of_chain:
  fixes ext :: "('t, 'v) externals" and base h :: "('t, 'v, 'b) xact_handler"
  assumes "chain_xact_handlers ext r base handle_individual_xacts = Inr h"
  shows "filter is_component (inserted h base) =
           (if handle_individual_xacts \<and> descend_expr r \<noteq> []
            then map Component_xacts (split_on_semicolon (descend_expr r))
            else [])"
proof (cases handle_individual_xacts)
  case False
  with assms show ?thesis by (simp add: components_of_aggregate)
next
  case True
  with assms have "chain_xact_handlers ext r base True = Inr h" by simp
  from components_of_individual [OF this] True show ?thesis
    by (simp add: component_stages_def stages_if_def)
qed

text \<open>
  C4, as the claim states it, fails: it names no mode, and in aggregate mode (the mode of
  \<open>sum_all_accounts\<close>, line 236) a \<open>descend_expr\<close> of three expressions inserts no
  component stage at all.
\<close>

theorem component_stage_count_counterexample:
  "descend_expr (no_options\<lparr>descend_expr := ''x;yz;w''\<rparr>) \<noteq> [] \<and>
   chain_xact_handlers (externals_at 0) (no_options\<lparr>descend_expr := ''x;yz;w''\<rparr>)
       formatter False
     = Inr [Other_handler 0] \<and>
   filter is_component (inserted [Other_handler 0] formatter) = [] \<and>
   \<not> length (filter is_component (inserted [Other_handler 0] formatter))
       = Suc (count_list ''x;yz;w'' CHR '';'')"
  by (simp add: chain_xact_handlers_def no_options_def formatter_def inserted_def)

text \<open>
  C4, amended: in individual mode, for a non-empty \<open>descend_expr\<close>, the component stages
  that the builder inserts are, in flow order from the head of the chain, one stage per
  expression in the order the expressions are written: the first expression's stage is
  nearest the source. In aggregate mode, and for an empty \<open>descend_expr\<close>, the builder
  inserts no component stage. The expressions are the pieces between the semicolons:
  joined with semicolons they give \<open>descend_expr\<close> back, none contains a semicolon, and
  their number is the number of semicolons plus one.
\<close>

theorem component_stages_in_written_order:
  fixes ext :: "('t, 'v) externals" and base h :: "('t, 'v, 'b) xact_handler"
  assumes "chain_xact_handlers ext r base handle_individual_xacts = Inr h"
  shows "filter is_component (inserted h base) =
           (if handle_individual_xacts \<and> descend_expr r \<noteq> []
            then map Component_xacts (split_on_semicolon (descend_expr r))
            else []) \<and>
         length (split_on_semicolon (descend_expr r)) =
           Suc (count_list (descend_expr r) CHR '';'') \<and>
         join_semicolon (split_on_semicolon (descend_expr r)) = descend_expr r \<and>
         (\<forall>e \<in> set (split_on_semicolon (descend_expr r)). CHR '';'' \<notin> set e)"
  using components_of_chain [OF assms]
  by (simp add: length_split_on_semicolon join_split_on_semicolon split_on_semicolon_free)

theorem component_stages_in_written_order_witness:
  "chain_xact_handlers (externals_at 0)
       (no_options\<lparr>descend_expr := ''x;yz;w'', secondary_predicate := ''p''\<rparr>) formatter True
     = Inr [Filter_xacts ''p'', Component_xacts ''x'', Component_xacts ''yz'',
            Component_xacts ''w'', Calc_xacts, Other_handler 0] \<and>
   filter is_component
       (inserted [Filter_xacts ''p'', Component_xacts ''x'', Component_xacts ''yz'',
                  Component_xacts ''w'', Calc_xacts, Other_handler 0] formatter)
     = map Component_xacts (split_on_semicolon ''x;yz;w'') \<and>
   split_on_semicolon ''x;yz;w'' = [''x'', ''yz'', ''w''] \<and>
   chain_xact_handlers (externals_at 0)
       (no_options\<lparr>descend_expr := ''x;yz;w'', secondary_predicate := ''p''\<rparr>) formatter False
     = Inr [Other_handler 0] \<and>
   filter is_component (inserted [Other_handler 0] formatter) = []"
proof -
  have s: "descend_split ''x;yz;w'' 0 (find_from ''x;yz;w'' CHR '';'' 0) [] =
             Inr [''x'', ''yz'', ''w'']"
    by (simp add: substring_def)
  have c: "chain_xact_handlers (externals_at 0)
       (no_options\<lparr>descend_expr := ''x;yz;w'', secondary_predicate := ''p''\<rparr>) formatter True
     = Inr [Filter_xacts ''p'', Component_xacts ''x'', Component_xacts ''yz'',
            Component_xacts ''w'', Calc_xacts, Other_handler 0]"
    by (simp add: chain_xact_handlers_def no_options_def formatter_def s
          del: descend_split.simps find_from.simps)
  have a: "chain_xact_handlers (externals_at 0)
       (no_options\<lparr>descend_expr := ''x;yz;w'', secondary_predicate := ''p''\<rparr>) formatter False
     = Inr [Other_handler 0]"
    by (simp add: chain_xact_handlers_def no_options_def formatter_def)
  from component_stages_in_written_order [OF c] component_stages_in_written_order [OF a] c a
  show ?thesis by simp
qed

text \<open>
  C6, as the claim states it, fails: it names no mode, and in aggregate mode a
  \<open>descend_expr\<close> that ends in a semicolon gives no component stage, so no stage whose
  expression is the empty string.
\<close>

theorem trailing_segment_counterexample:
  "descend_expr (no_options\<lparr>descend_expr := ''x;''\<rparr>) = ''x'' @ '';'' \<and>
   chain_xact_handlers (externals_at 0) (no_options\<lparr>descend_expr := ''x;''\<rparr>)
       formatter False
     = Inr [Other_handler 0] \<and>
   filter is_component (inserted [Other_handler 0] formatter) = [] \<and>
   Component_xacts [] \<notin> set (inserted [Other_handler 0] formatter)"
  by (simp add: chain_xact_handlers_def no_options_def formatter_def inserted_def)

text \<open>
  C6, amended: in individual mode, a \<open>descend_expr\<close> that ends in a semicolon gives the
  component stages of the text before that semicolon, followed by one more stage whose
  expression is the empty string: the empty piece at the end is kept, and there is one
  stage per piece. An empty \<open>descend_expr\<close> gives no component stage, and in aggregate
  mode no \<open>descend_expr\<close> gives one.
\<close>

theorem descend_expr_edge_cases:
  fixes ext :: "('t, 'v) externals" and base h :: "('t, 'v, 'b) xact_handler"
  assumes "chain_xact_handlers ext r base handle_individual_xacts = Inr h"
  shows "(descend_expr r = [] \<or> \<not> handle_individual_xacts \<longrightarrow>
            filter is_component (inserted h base) = []) \<and>
         (handle_individual_xacts \<and> descend_expr r = e @ '';'' \<longrightarrow>
            filter is_component (inserted h base) =
              map Component_xacts (split_on_semicolon e) @ [Component_xacts []]) \<and>
         length (filter is_component (inserted h base)) =
           (if handle_individual_xacts \<and> descend_expr r \<noteq> []
            then Suc (count_list (descend_expr r) CHR '';'') else 0)"
  using components_of_chain [OF assms] split_on_semicolon_append [of e "[]"]
  by (auto simp: length_split_on_semicolon)

theorem descend_expr_edge_cases_witness:
  "chain_xact_handlers (externals_at 0) no_options formatter True
     = Inr [Calc_xacts, Other_handler 0] \<and>
   descend_expr no_options = [] \<and>
   filter is_component (inserted [Calc_xacts, Other_handler 0] formatter) = [] \<and>
   chain_xact_handlers (externals_at 0) (no_options\<lparr>descend_expr := ''x;;''\<rparr>) formatter True
     = Inr [Component_xacts ''x'', Component_xacts [], Component_xacts [], Calc_xacts,
            Other_handler 0] \<and>
   descend_expr (no_options\<lparr>descend_expr := ''x;;''\<rparr>) = ''x;'' @ '';'' \<and>
   filter is_component
       (inserted [Component_xacts ''x'', Component_xacts [], Component_xacts [], Calc_xacts,
                  Other_handler 0] formatter)
     = map Component_xacts (split_on_semicolon ''x;'') @ [Component_xacts []] \<and>
   chain_xact_handlers (externals_at 0) (no_options\<lparr>descend_expr := ''x;;''\<rparr>) formatter False
     = Inr [Other_handler 0] \<and>
   filter is_component (inserted [Other_handler 0] formatter) = []"
proof -
  have c0: "chain_xact_handlers (externals_at 0) no_options formatter True
     = Inr [Calc_xacts, Other_handler 0]"
    by (simp add: chain_xact_handlers_def no_options_def formatter_def)
  have s: "descend_split ''x;;'' 0 (find_from ''x;;'' CHR '';'' 0) [] = Inr [''x'', [], []]"
    by (simp add: substring_def)
  have c1: "chain_xact_handlers (externals_at 0) (no_options\<lparr>descend_expr := ''x;;''\<rparr>)
       formatter True
     = Inr [Component_xacts ''x'', Component_xacts [], Component_xacts [], Calc_xacts,
            Other_handler 0]"
    by (simp add: chain_xact_handlers_def no_options_def formatter_def s
          del: descend_split.simps find_from.simps)
  have c2: "chain_xact_handlers (externals_at 0) (no_options\<lparr>descend_expr := ''x;;''\<rparr>)
       formatter False
     = Inr [Other_handler 0]"
    by (simp add: chain_xact_handlers_def no_options_def formatter_def)
  have d0: "descend_expr no_options = []" by (simp add: no_options_def)
  have d1: "descend_expr (no_options\<lparr>descend_expr := ''x;;''\<rparr>) = ''x;'' @ '';''" by simp
  from descend_expr_edge_cases [OF c0, of "[]"] descend_expr_edge_cases [OF c1, of "''x;''"]
    descend_expr_edge_cases [OF c2, of "''x;''"] c0 c1 c2 d0 d1
  show ?thesis by simp
qed

section \<open>What the mode switches on\<close>

text \<open>
  C7: in aggregate mode the builder inserts nothing but the payee substitution, the filter
  on the general predicate, the related expansion and the inversion, each when its option
  is set. In individual mode the same stages are at the head of the chain, and between
  them and the caller's handler lie the stages of the individual block (truncate, display
  filter, calc, components, reconcile, secondary filter, sort, revalue, collapse, subtotal
  family, interval with its date sort), calc among them: these are inserted in individual
  mode only.
\<close>

theorem mode_gates_stages:
  fixes ext :: "('t, 'v) externals" and base h :: "('t, 'v, 'b) xact_handler"
  shows "chain_xact_handlers ext r base False =
           Inr ((if comm_as_payee r then [Set_comm_as_payee]
                 else if code_as_payee r then [Set_code_as_payee] else [])
                @ (if predicate r \<noteq> [] then [Filter_xacts (predicate r)] else [])
                @ (if show_related r then [Related_xacts (show_all_related r)] else [])
                @ (if show_inverted r then [Invert_xacts] else [])
                @ base) \<and>
         (chain_xact_handlers ext r base True = Inr h \<longrightarrow>
            (\<exists>block.
               h = (if comm_as_payee r then [Set_comm_as_payee]
                    else if code_as_payee r then [Set_code_as_payee] else [])
                   @ (if predicate r \<noteq> [] then [Filter_xacts (predicate r)] else [])
                   @ (if show_related r then [Related_xacts (show_all_related r)] else [])
                   @ (if show_inverted r then [Invert_xacts] else [])
                   @ block @ base \<and>
               Calc_xacts \<in> set block \<and> (\<forall>s \<in> set block. individual_class s)))"
proof -
  have common:
    "(common_stages r :: ('t, 'v, 'b) stage list) =
       (if comm_as_payee r then [Set_comm_as_payee]
        else if code_as_payee r then [Set_code_as_payee] else [])
       @ (if predicate r \<noteq> [] then [Filter_xacts (predicate r)] else [])
       @ (if show_related r then [Related_xacts (show_all_related r)] else [])
       @ (if show_inverted r then [Invert_xacts] else [])"
    by (simp add: common_stages_def stages_if_def)
  have agg: "chain_xact_handlers ext r base False = Inr (common_stages r @ base)"
    by (rule chain_xact_handlers_aggregate)
  have ind: "\<exists>block. h = common_stages r @ block @ base \<and> Calc_xacts \<in> set block \<and>
                (\<forall>s \<in> set block. individual_class s)"
    if c: "chain_xact_handlers ext r base True = Inr h"
  proof -
    obtain rs :: "('t, 'v, 'b) stage list" where rs: "reconcile_stages ext r = Inr rs"
      and h: "h = common_stages r @ upper_stages r (descend_expr r \<noteq> []) @ rs
                   @ component_stages r @ lower_stages r @ base"
      using c by (rule chain_xact_handlers_shape)
    let ?block = "upper_stages r (descend_expr r \<noteq> []) @ rs
                   @ component_stages r @ lower_stages r"
    have "h = common_stages r @ ?block @ base" by (simp add: h)
    moreover have "Calc_xacts \<in> set ?block" by (simp add: lower_stages_def)
    moreover have "\<forall>s \<in> set ?block. individual_class s"
      by (auto dest: upper_stages_kinds reconcile_stages_kinds [OF rs]
            component_stages_kinds lower_stages_kinds)
    ultimately show ?thesis by blast
  qed
  show ?thesis
    using agg ind unfolding common by (simp only: append_assoc) blast
qed

theorem mode_gates_stages_witness:
  "chain_xact_handlers (externals_at 0)
       (no_options\<lparr>show_collapsed := True, show_inverted := True, code_as_payee := True\<rparr>)
       formatter False
     = Inr [Set_code_as_payee, Invert_xacts, Other_handler 0] \<and>
   chain_xact_handlers (externals_at 0)
       (no_options\<lparr>show_collapsed := True, show_inverted := True, code_as_payee := True\<rparr>)
       formatter True
     = Inr [Set_code_as_payee, Invert_xacts, Collapse_xacts, Calc_xacts, Other_handler 0] \<and>
   (\<exists>block.
      [Set_code_as_payee, Invert_xacts, Collapse_xacts, Calc_xacts, Other_handler 0]
        = [Set_code_as_payee, Invert_xacts] @ block @ formatter \<and>
      Calc_xacts \<in> set block \<and> (\<forall>s \<in> set block. individual_class s))"
proof -
  have c: "chain_xact_handlers (externals_at 0)
       (no_options\<lparr>show_collapsed := True, show_inverted := True, code_as_payee := True\<rparr>)
       formatter True
     = Inr [Set_code_as_payee, Invert_xacts, Collapse_xacts, Calc_xacts, Other_handler 0]"
    by (simp add: chain_xact_handlers_def no_options_def formatter_def)
  from mode_gates_stages [of "externals_at 0"
      "no_options\<lparr>show_collapsed := True, show_inverted := True, code_as_payee := True\<rparr>"
      formatter "[Set_code_as_payee, Invert_xacts, Collapse_xacts, Calc_xacts, Other_handler 0]"] c
  show ?thesis
    by (simp add: no_options_def formatter_def)
qed

section \<open>What the chain depends on\<close>

text \<open>
  C8, as the claim states it, fails: with a reconcile balance and no reconcile date, two
  builds from the same options, the same caller's handler and the same mode, made at
  different moments, give different chains.
\<close>

theorem chain_ignores_clock_counterexample:
  "chain_xact_handlers (externals_at 1) (no_options\<lparr>reconcile_balance := ''100''\<rparr>)
       formatter True
   \<noteq> chain_xact_handlers (externals_at 2) (no_options\<lparr>reconcile_balance := ''100''\<rparr>)
       formatter True"
  by (simp add: chain_xact_handlers_def no_options_def formatter_def externals_at_def
        accept_string_def)

text \<open>
  C8, amended: the chain is a function of the options, the caller's handler, the mode, the
  results of parsing the reconcile date and the reconcile balance, and the global
  \<open>current_moment\<close>, and of nothing else. The moment is read only in individual mode with
  a reconcile balance and no reconcile date (it is then the cutoff of the reconcile stage);
  in every other case two builds give the same chain whatever the moment is.
\<close>

theorem chain_depends_on:
  fixes e1 e2 :: "('t, 'v) externals" and base :: "('t, 'v, 'b) xact_handler"
  assumes "parse_datetime e1 (reconcile_date r) = parse_datetime e2 (reconcile_date r)"
    and "value_t e1 (reconcile_balance r) = value_t e2 (reconcile_balance r)"
    and "current_moment e1 = current_moment e2 \<or> \<not> handle_individual_xacts
           \<or> reconcile_balance r = [] \<or> reconcile_date r \<noteq> []"
  shows "chain_xact_handlers e1 r base handle_individual_xacts =
         chain_xact_handlers e2 r base handle_individual_xacts"
proof (cases handle_individual_xacts)
  case False
  then show ?thesis by (simp add: chain_xact_handlers_aggregate)
next
  case True
  have "(reconcile_stages e1 r :: error + ('t, 'v, 'b) stage list) = reconcile_stages e2 r"
  proof (cases "reconcile_balance r = [] \<or> reconcile_date r \<noteq> []")
    case True
    then show ?thesis
      unfolding reconcile_stages_def assms(1) assms(2) by auto
  next
    case False
    with assms(3) \<open>handle_individual_xacts\<close> have "current_moment e1 = current_moment e2"
      by simp
    then show ?thesis
      unfolding reconcile_stages_def assms(1) assms(2) by simp
  qed
  with True show ?thesis by (simp add: chain_xact_handlers_individual)
qed

theorem chain_depends_on_witness:
  "parse_datetime (externals_at 1) ''2008-01-31'' = parse_datetime (externals_at 2) ''2008-01-31'' \<and>
   value_t (externals_at 1) ''100'' = value_t (externals_at 2) ''100'' \<and>
   reconcile_date (no_options\<lparr>reconcile_balance := ''100'', reconcile_date := ''2008-01-31''\<rparr>) \<noteq> [] \<and>
   chain_xact_handlers (externals_at 1)
       (no_options\<lparr>reconcile_balance := ''100'', reconcile_date := ''2008-01-31''\<rparr>)
       formatter True
   = chain_xact_handlers (externals_at 2)
       (no_options\<lparr>reconcile_balance := ''100'', reconcile_date := ''2008-01-31''\<rparr>)
       formatter True \<and>
   chain_xact_handlers (externals_at 2)
       (no_options\<lparr>reconcile_balance := ''100'', reconcile_date := ''2008-01-31''\<rparr>)
       formatter True
   = Inr [Reconcile_xacts ''100'' 10, Calc_xacts, Other_handler 0]"
proof -
  have c: "chain_xact_handlers (externals_at 2)
       (no_options\<lparr>reconcile_balance := ''100'', reconcile_date := ''2008-01-31''\<rparr>)
       formatter True
   = Inr [Reconcile_xacts ''100'' 10, Calc_xacts, Other_handler 0]"
    by (simp add: chain_xact_handlers_def no_options_def formatter_def externals_at_def
        accept_string_def)
  from chain_depends_on [of "externals_at 1"
      "no_options\<lparr>reconcile_balance := ''100'', reconcile_date := ''2008-01-31''\<rparr>"
      "externals_at 2" True formatter] c
  show ?thesis
    by (simp add: externals_at_def)
qed

section \<open>The remember-components flag\<close>

lemma is_component_cases: "is_component s \<Longrightarrow> \<exists>e. s = Component_xacts e"
  by (cases s) simp_all

text \<open>
  C10: every stage with a \<open>remember_components\<close> argument (subtotal, day-of-week, by-payee,
  interval) that the builder inserts carries the value true exactly when \<open>descend_expr\<close> is
  non-empty, which is exactly when the builder has inserted at least one component stage
  into the same chain.
\<close>

theorem remember_components_flag:
  fixes ext :: "('t, 'v) externals" and base h :: "('t, 'v, 'b) xact_handler"
  assumes "chain_xact_handlers ext r base handle_individual_xacts = Inr h"
    and "s \<in> set (inserted h base)"
    and "remember_components_of s = Some rc"
  shows "rc = (descend_expr r \<noteq> []) \<and>
         rc = (\<exists>e. Component_xacts e \<in> set (inserted h base))"
proof (cases handle_individual_xacts)
  case False
  with assms(1) have "h = common_stages r @ base"
    by (simp add: chain_xact_handlers_aggregate)
  then have "inserted h base = common_stages r"
    using inserted_append [of "common_stages r" base] by simp
  with assms(2) have "s \<in> set (common_stages r)" by simp
  from common_stages_kinds [OF this] assms(3) show ?thesis by auto
next
  case True
  with assms(1) have c: "chain_xact_handlers ext r base True = Inr h" by simp
  obtain rs :: "('t, 'v, 'b) stage list" where rs: "reconcile_stages ext r = Inr rs"
    and h: "h = common_stages r @ upper_stages r (descend_expr r \<noteq> []) @ rs
                 @ component_stages r @ lower_stages r @ base"
    using c by (rule chain_xact_handlers_shape)
  have ins: "inserted h base = common_stages r @ upper_stages r (descend_expr r \<noteq> []) @ rs
                 @ component_stages r @ lower_stages r"
    using inserted_append [of "common_stages r @ upper_stages r (descend_expr r \<noteq> []) @ rs
                 @ component_stages r @ lower_stages r" base]
    by (simp add: h)
  have flag: "rc = (descend_expr r \<noteq> [])"
    using assms(2) assms(3) unfolding ins
    by (auto dest: common_stages_kinds upper_stages_kinds reconcile_stages_kinds [OF rs]
          component_stages_kinds lower_stages_kinds)
  have "(\<exists>e. Component_xacts e \<in> set (inserted h base)) =
          (filter is_component (inserted h base) \<noteq> [])"
  proof
    assume "\<exists>e. Component_xacts e \<in> set (inserted h base)"
    then obtain e where "Component_xacts e \<in> set (inserted h base)" ..
    moreover have "is_component (Component_xacts e :: ('t, 'v, 'b) stage)" by simp
    ultimately show "filter is_component (inserted h base) \<noteq> []"
      unfolding filter_empty_conv by blast
  next
    assume "filter is_component (inserted h base) \<noteq> []"
    then obtain x where x: "x \<in> set (inserted h base)" "is_component x"
      by (auto simp: filter_empty_conv)
    from x(2) obtain e where "x = Component_xacts e"
      by (auto dest: is_component_cases)
    with x(1) show "\<exists>e. Component_xacts e \<in> set (inserted h base)"
      by blast
  qed
  also have "\<dots> = (descend_expr r \<noteq> [])"
    by (simp add: components_of_individual [OF c] component_stages_def stages_if_def
          split_on_semicolon_nonempty)
  finally show ?thesis using flag by simp
qed

theorem remember_components_flag_witness:
  "chain_xact_handlers (externals_at 0)
       (no_options\<lparr>descend_expr := ''x'', by_payee := True, report_period := ''weekly''\<rparr>)
       formatter True
     = Inr [Sort_xacts ''d'', Interval_xacts ''weekly'' True, By_payee_xacts True,
            Component_xacts ''x'', Calc_xacts, Other_handler 0] \<and>
   By_payee_xacts True
     \<in> set (inserted [Sort_xacts ''d'', Interval_xacts ''weekly'' True, By_payee_xacts True,
                      Component_xacts ''x'', Calc_xacts, Other_handler 0] formatter) \<and>
   remember_components_of (By_payee_xacts True :: (nat, string, nat) stage) = Some True \<and>
   True = (descend_expr
             (no_options\<lparr>descend_expr := ''x'', by_payee := True, report_period := ''weekly''\<rparr>)
           \<noteq> []) \<and>
   True = (\<exists>e. Component_xacts e
             \<in> set (inserted [Sort_xacts ''d'', Interval_xacts ''weekly'' True,
                              By_payee_xacts True, Component_xacts ''x'', Calc_xacts,
                              Other_handler 0 :: (nat, string, nat) stage] formatter))"
proof -
  have s: "descend_split ''x'' 0 (find_from ''x'' CHR '';'' 0) [] = Inr [''x'']"
    by (simp add: substring_def)
  have c: "chain_xact_handlers (externals_at 0)
       (no_options\<lparr>descend_expr := ''x'', by_payee := True, report_period := ''weekly''\<rparr>)
       formatter True
     = Inr [Sort_xacts ''d'', Interval_xacts ''weekly'' True, By_payee_xacts True,
            Component_xacts ''x'', Calc_xacts, Other_handler 0]"
    by (simp add: chain_xact_handlers_def no_options_def formatter_def s
          del: descend_split.simps find_from.simps)
  have m: "By_payee_xacts True
     \<in> set (inserted [Sort_xacts ''d'', Interval_xacts ''weekly'' True, By_payee_xacts True,
                      Component_xacts ''x'', Calc_xacts, Other_handler 0] formatter)"
    by (simp add: inserted_def formatter_def)
  have f: "remember_components_of (By_payee_xacts True :: (nat, string, nat) stage) = Some True"
    by simp
  from remember_components_flag [OF c m f] c m f show ?thesis by simp
qed

section \<open>Calc before a filter, and a filter before calc\<close>

lemma calc_xacts_run_snoc:
  "calc_xacts_run running (xs @ [x]) =
     calc_xacts_run running xs
       @ [x\<lparr>total := running + sum_list (map amount xs) + amount x\<rparr>]"
  by (induction xs arbitrary: running) (simp_all add: add.assoc)

lemma final_total_snoc: "final_total (ys @ [y]) = Some (total y)"
  by (simp add: final_total_def)

text \<open>
  The total on the last transaction that leaves calc followed by a filter: the sum of all
  amounts up to the last transaction that the filter keeps.
\<close>

lemma final_total_calc_then_filter:
  assumes "\<And>x t. p (x\<lparr>total := t\<rparr>) = p x"
  shows "final_total (filter_xacts_run p (calc_xacts_run running xs)) =
           (case dropWhile (\<lambda>x. \<not> p x) (rev xs) of
              [] \<Rightarrow> None
            | l # before \<Rightarrow> Some (running + sum_list (map amount before) + amount l))"
proof (induction xs rule: rev_induct)
  case Nil
  show ?case by (simp add: filter_xacts_run_def final_total_def)
next
  case (snoc x xs)
  show ?case
  proof (cases "p x")
    case True
    then show ?thesis
      by (simp add: calc_xacts_run_snoc filter_xacts_run_def assms final_total_snoc
            rev_map [symmetric] sum_list_rev)
  next
    case False
    with snoc show ?thesis
      by (simp add: calc_xacts_run_snoc filter_xacts_run_def assms)
  qed
qed

text \<open>
  The total on the last transaction that leaves a filter followed by calc: the sum of the
  kept amounts up to the last transaction that the filter keeps.
\<close>

lemma final_total_filter_then_calc:
  "final_total (calc_xacts_run running (filter_xacts_run p xs)) =
     (case dropWhile (\<lambda>x. \<not> p x) (rev xs) of
        [] \<Rightarrow> None
      | l # before \<Rightarrow>
          Some (running + sum_list (map amount (filter p before)) + amount l))"
proof (induction xs rule: rev_induct)
  case Nil
  show ?case by (simp add: filter_xacts_run_def final_total_def)
next
  case (snoc x xs)
  show ?case
  proof (cases "p x")
    case True
    then show ?thesis
      by (simp add: calc_xacts_run_snoc filter_xacts_run_def final_total_snoc
            rev_filter [symmetric] rev_map [symmetric] sum_list_rev)
  next
    case False
    with snoc show ?thesis
      by (simp add: filter_xacts_run_def)
  qed
qed

lemma sum_list_split_filter:
  fixes f :: "'b \<Rightarrow> 'a::ab_group_add"
  shows "sum_list (map f xs) =
           sum_list (map f (filter p xs)) + sum_list (map f (filter (\<lambda>x. \<not> p x) xs))"
  by (induction xs) (simp_all add: algebra_simps)

text \<open>
  C5, as the claim states it, fails: the filter keeps the account \<open>Assets\<close> and removes two
  transactions with nonzero amounts, 5 and -5, and the two compositions stamp the same
  final total.
\<close>

theorem calc_filter_differ_counterexample:
  "\<not> in_account ''Assets'' \<lparr>account = ''Food'', amount = 5 :: int, total = 0\<rparr> \<and>
   amount \<lparr>account = ''Food'', amount = 5 :: int, total = 0\<rparr> \<noteq> 0 \<and>
   final_total
     (filter_xacts_run (in_account ''Assets'')
        (calc_xacts_run 0
           [\<lparr>account = ''Food'', amount = 5 :: int, total = 0\<rparr>,
            \<lparr>account = ''Food'', amount = - 5, total = 0\<rparr>,
            \<lparr>account = ''Assets'', amount = 1, total = 0\<rparr>]))
   = final_total
     (calc_xacts_run 0
        (filter_xacts_run (in_account ''Assets'')
           [\<lparr>account = ''Food'', amount = 5 :: int, total = 0\<rparr>,
            \<lparr>account = ''Food'', amount = - 5, total = 0\<rparr>,
            \<lparr>account = ''Assets'', amount = 1, total = 0\<rparr>]))"
  by (simp add: in_account_def filter_xacts_run_def final_total_def)

text \<open>
  C5, amended: for a filter whose predicate does not read the stamped total, calc followed
  by the filter and the filter followed by calc stamp different final totals exactly when
  the amounts of the transactions that the filter removes ahead of the last transaction
  it keeps do not sum to zero. In particular the two agree when the filter keeps nothing
  and when it removes only transactions behind the last one it keeps.
\<close>

theorem calc_filter_order:
  fixes p :: "'a::ab_group_add xact_t \<Rightarrow> bool"
  assumes "\<And>x t. p (x\<lparr>total := t\<rparr>) = p x"
  shows "(final_total (filter_xacts_run p (calc_xacts_run 0 xs))
            \<noteq> final_total (calc_xacts_run 0 (filter_xacts_run p xs)))
         = (sum_list (map amount (removed_before_last_kept p xs)) \<noteq> 0)"
proof (cases "dropWhile (\<lambda>x. \<not> p x) (rev xs)")
  case Nil
  show ?thesis
    unfolding final_total_calc_then_filter [OF assms] final_total_filter_then_calc
      removed_before_last_kept_def Nil
    by simp
next
  case (Cons l before)
  then have l: "p l" by (simp add: dropWhile_eq_Cons_conv)
  have split: "sum_list (map amount before) =
      sum_list (map amount (filter p before))
        + sum_list (map amount (filter (\<lambda>x. \<not> p x) before))"
    by (rule sum_list_split_filter)
  show ?thesis
    unfolding final_total_calc_then_filter [OF assms] final_total_filter_then_calc
      removed_before_last_kept_def Cons
    using l by (simp add: split)
qed

theorem calc_filter_order_witness:
  "(\<forall>x t. in_account ''Assets'' (x\<lparr>total := t :: int\<rparr>) = in_account ''Assets'' x) \<and>
   final_total
     (filter_xacts_run (in_account ''Assets'')
        (calc_xacts_run 0
           [\<lparr>account = ''Food'', amount = 5 :: int, total = 0\<rparr>,
            \<lparr>account = ''Assets'', amount = 1, total = 0\<rparr>,
            \<lparr>account = ''Food'', amount = 2, total = 0\<rparr>]))
     = Some 6 \<and>
   final_total
     (calc_xacts_run 0
        (filter_xacts_run (in_account ''Assets'')
           [\<lparr>account = ''Food'', amount = 5 :: int, total = 0\<rparr>,
            \<lparr>account = ''Assets'', amount = 1, total = 0\<rparr>,
            \<lparr>account = ''Food'', amount = 2, total = 0\<rparr>]))
     = Some 1 \<and>
   sum_list (map amount
     (removed_before_last_kept (in_account ''Assets'')
        [\<lparr>account = ''Food'', amount = 5 :: int, total = 0\<rparr>,
         \<lparr>account = ''Assets'', amount = 1, total = 0\<rparr>,
         \<lparr>account = ''Food'', amount = 2, total = 0\<rparr>])) \<noteq> 0"
proof -
  have a: "in_account ''Assets'' (x\<lparr>total := t\<rparr>) = in_account ''Assets'' x"
    for x :: "int xact_t" and t
    by (simp add: in_account_def)
  have l: "final_total
     (filter_xacts_run (in_account ''Assets'')
        (calc_xacts_run 0
           [\<lparr>account = ''Food'', amount = 5 :: int, total = 0\<rparr>,
            \<lparr>account = ''Assets'', amount = 1, total = 0\<rparr>,
            \<lparr>account = ''Food'', amount = 2, total = 0\<rparr>]))
     = Some 6"
    by (simp add: in_account_def filter_xacts_run_def final_total_def)
  have r: "final_total
     (calc_xacts_run 0
        (filter_xacts_run (in_account ''Assets'')
           [\<lparr>account = ''Food'', amount = 5 :: int, total = 0\<rparr>,
            \<lparr>account = ''Assets'', amount = 1, total = 0\<rparr>,
            \<lparr>account = ''Food'', amount = 2, total = 0\<rparr>]))
     = Some 1"
    by (simp add: in_account_def filter_xacts_run_def final_total_def)
  from calc_filter_order [of "in_account ''Assets''", OF a,
      of "[\<lparr>account = ''Food'', amount = 5 :: int, total = 0\<rparr>,
           \<lparr>account = ''Assets'', amount = 1, total = 0\<rparr>,
           \<lparr>account = ''Food'', amount = 2, total = 0\<rparr>]"] a l r
  show ?thesis by simp
qed

end
